theory Spec2Isabelle
  imports Complex_Main "HOL-Library.Multiset"
begin

section \<open>The flashcard component of src/App.tsx\<close>

text \<open>
  The program is one React function component. Its state is a set of \<open>useState\<close>
  cells; every function below is a closure created by one render of the component.

  A closure \<^emph>\<open>reads\<close> the cell values of the render that created it and \<^emph>\<open>writes\<close>
  by queueing updates (\<open>setIdx(i => i + 1)\<close>, \<open>setKnown(k => [...k, i])\<close>, ...) which
  React applies to the live cells. Every handler is therefore a function of two states:
  the first argument \<open>c\<close> is the render the closure was created in (what the code reads
  through the plain identifiers \<open>idx\<close>, \<open>queue\<close>, \<open>known\<close>, ...), the second argument
  \<open>s\<close> is the live state the queued updates are applied to; the result is the live
  state after the event. A handler that is re-created at every render (every
  \<open>onClick\<close> of the component) runs as \<open>f s s\<close>. The \<open>keydown\<close> listener is kept by
  \<open>useCallback\<close> and may run with an older \<open>c\<close>; see \<open>rerender\<close> below.
\<close>

subsection \<open>Data\<close>

text \<open>\<open>type QA = { q: string; a: string }\<close>\<close>

record QA =
  q :: string
  a :: string

text \<open>
  The \<open>useState\<close> cells that the session logic reads or writes (theme, list view and
  the list of saved sets are left out). \<open>queue\<close>, \<open>known\<close> and \<open>unknown\<close> are
  \<open>number[]\<close>; their entries are integers because \<open>currentIndex\<close> uses \<open>-1\<close> for
  "no card". \<open>idx\<close> starts at \<open>0\<close> and is only moved by guarded \<open>+1\<close>/\<open>-1\<close>, so it
  is a natural number.

  \<open>queueRef\<close> is the identity of the array held in the \<open>queue\<close> cell: every
  \<open>setQueue\<close> of the program stores a freshly built array, and \<open>useCallback\<close>
  compares the \<open>queue\<close> dependency by reference.
\<close>

record state =
  rawRows :: "QA list"
  queue :: "int list"
  queueRef :: nat
  idx :: nat
  flipped :: bool
  known :: "int list"
  unknown :: "int list"
  started :: bool
  shuffle :: bool
  reverse :: bool
  autoRepeatUnknown :: bool
  currentSetTitle :: string
  showSavedSets :: bool

text \<open>The initial values of the cells (the arguments of the \<open>useState\<close> calls).\<close>

definition initialState :: state where
  "initialState =
     \<lparr>rawRows = [], queue = [], queueRef = 0, idx = 0, flipped = False, known = [],
      unknown = [], started = False, shuffle = True, reverse = False,
      autoRepeatUnknown = True, currentSetTitle = [], showSavedSets = False\<rparr>"

subsection \<open>Derived values\<close>

text \<open>\<open>const currentIndex = queue[idx] ?? -1\<close>: an index past the end reads \<open>undefined\<close>.\<close>

definition currentIndex :: "state \<Rightarrow> int" where
  "currentIndex c = (if idx c < length (queue c) then queue c ! idx c else - 1)"

text \<open>\<open>Math.round\<close> rounds to the nearest integer, a tie towards \<open>+\<infinity>\<close>.\<close>

definition Math_round :: "real \<Rightarrow> int" where
  "Math_round x = \<lfloor>x + 1 / 2\<rfloor>"

text \<open>
  JavaScript numbers are IEEE 754 binary64 values, and \<open>/\<close> and \<open>*\<close> return the
  exact result rounded to the nearest such value, a tie going to the even
  significand. \<open>to_double\<close> is that rounding on the reals: with \<open>e\<close> the binary
  exponent of \<open>|x|\<close> (not below \<open>-1022\<close>, where the subnormal numbers begin) the
  result is the multiple of \<open>2^(e - 52)\<close> nearest to \<open>x\<close>. The exponent is found by
  halving or doubling; at \<open>2^1024\<close> and above binary64 overflows to \<open>Infinity\<close>,
  which no value below comes near.
\<close>

definition round_even :: "real \<Rightarrow> int" where
  "round_even y =
     (let f = \<lfloor>y\<rfloor>; r = y - of_int f
      in if r < 1 / 2 then f else if 1 / 2 < r then f + 1 else if even f then f else f + 1)"

fun exponent_up :: "nat \<Rightarrow> real \<Rightarrow> int" where
  "exponent_up 0 x = 0"
| "exponent_up (Suc n) x = (if x < 2 then 0 else 1 + exponent_up n (x / 2))"

fun exponent_down :: "nat \<Rightarrow> real \<Rightarrow> int" where
  "exponent_down 0 x = 0"
| "exponent_down (Suc n) x = (if 1 \<le> x then 0 else exponent_down n (2 * x) - 1)"

definition exponent :: "real \<Rightarrow> int" where
  "exponent x = (if 1 \<le> x then exponent_up 1023 x else exponent_down 1022 x)"

definition to_double :: "real \<Rightarrow> real" where
  "to_double x =
     (let e = exponent \<bar>x\<bar>
      in if e \<le> 52
         then sgn x * of_int (round_even (\<bar>x\<bar> * 2 ^ nat (52 - e))) / 2 ^ nat (52 - e)
         else sgn x * of_int (round_even (\<bar>x\<bar> / 2 ^ nat (e - 52))) * 2 ^ nat (e - 52))"

definition double_div :: "real \<Rightarrow> real \<Rightarrow> real" where
  "double_div x y = to_double (x / y)"

definition double_mul :: "real \<Rightarrow> real \<Rightarrow> real" where
  "double_mul x y = to_double (x * y)"

text \<open>
  \<open>const total = queue.length; const progress = total ? Math.round((idx / total) * 100) : 0\<close>,
  the division and the multiplication in binary64. \<open>idx\<close> and \<open>total\<close> are array
  positions and lengths (below \<open>2^32\<close>), which binary64 holds exactly.
\<close>

definition total :: "state \<Rightarrow> nat" where
  "total c = length (queue c)"

definition progress :: "state \<Rightarrow> int" where
  "progress c =
     (if total c \<noteq> 0
      then Math_round (double_mul (double_div (real (idx c)) (real (total c))) 100)
      else 0)"

subsection \<open>Navigation\<close>

text \<open>
  \<open>const next = () => { if (idx < queue.length - 1) { setIdx(i => i + 1); setFlipped(false); } }\<close>
  and its mirror image \<open>prev\<close>. The guard reads the closure, the updates go to the
  live cells. \<open>queue.length - 1\<close> is \<open>-1\<close> for the empty queue, hence the integers.
\<close>

definition "next" :: "state \<Rightarrow> state \<Rightarrow> state" where
  "next c s =
     (if int (idx c) < int (length (queue c)) - 1
      then s\<lparr>idx := idx s + 1, flipped := False\<rparr> else s)"

definition prev :: "state \<Rightarrow> state \<Rightarrow> state" where
  "prev c s = (if idx c > 0 then s\<lparr>idx := idx s - 1, flipped := False\<rparr> else s)"

text \<open>\<open>const startSession = () => setStarted(true)\<close> and the flip toggle \<open>setFlipped(f => !f)\<close>.\<close>

definition startSession :: "state \<Rightarrow> state \<Rightarrow> state" where
  "startSession c s = s\<lparr>started := True\<rparr>"

definition toggleFlip :: "state \<Rightarrow> state" where
  "toggleFlip s = s\<lparr>flipped := \<not> flipped s\<rparr>"

subsection \<open>Classification\<close>

text \<open>
  \<open>copy.splice(insertAt, 0, i)\<close>: insert one element, deleting none. A negative start
  counts from the end, and the start is clamped to \<open>[0, length]\<close>.
\<close>

definition splice_insert :: "int \<Rightarrow> 'a \<Rightarrow> 'a list \<Rightarrow> 'a list" where
  "splice_insert start x xs =
     (let len = int (length xs);
          k = (if start < 0 then max (len + start) 0 else min start len)
      in take (nat k) xs @ [x] @ drop (nat k) xs)"

text \<open>
  \<open>markKnown\<close>: the membership test reads \<open>known\<close> of the closure, the append is the
  updater \<open>k => [...k, i]\<close> on the live cell; likewise the filter on \<open>unknown\<close>.
\<close>

definition markKnown :: "state \<Rightarrow> state \<Rightarrow> state" where
  "markKnown c s =
     (let i = currentIndex c in
      if i < 0 then s
      else
        let s1 = (if i \<notin> set (known c) then s\<lparr>known := known s @ [i]\<rparr> else s);
            s2 = (if autoRepeatUnknown c
                  then s1\<lparr>unknown := filter (\<lambda>x. x \<noteq> i) (unknown s1)\<rparr> else s1)
        in next c s2)"

text \<open>
  \<open>markUnknown\<close>. The argument \<open>u\<close> is the value returned by the one call of
  \<open>Math.random()\<close>, a number in \<open>[0, 1)\<close>. Inside the \<open>setQueue\<close> updater
  \<open>copy\<close> is a copy of the live queue, while \<open>idx\<close> and \<open>i\<close> are the closure's.
  \<open>minGap\<close> is \<open>Math.max(10, Math.floor(copy.length * 0.3))\<close> and \<open>insertAt\<close> is
  \<open>Math.min(copy.length, idx + minGap + Math.floor(Math.random() * 5))\<close>, the
  products taken over the reals.
\<close>

definition minGap :: "int list \<Rightarrow> int" where
  "minGap copy = max 10 \<lfloor>real (length copy) * 0.3\<rfloor>"

definition insertAt :: "state \<Rightarrow> real \<Rightarrow> int list \<Rightarrow> int" where
  "insertAt c u copy = min (int (length copy)) (int (idx c) + minGap copy + \<lfloor>u * 5\<rfloor>)"

definition markUnknown :: "real \<Rightarrow> state \<Rightarrow> state \<Rightarrow> state" where
  "markUnknown u c s =
     (let i = currentIndex c in
      if i < 0 then s
      else
        let s1 = (if i \<notin> set (unknown c) then s\<lparr>unknown := unknown s @ [i]\<rparr> else s);
            s2 = (if autoRepeatUnknown c
                  then s1\<lparr>queue := splice_insert (insertAt c u (queue s1)) i (queue s1),
                          queueRef := queueRef s1 + 1\<rparr>
                  else s1)
        in next c s2)"

subsection \<open>Session reset and shuffle\<close>

text \<open>
  \<open>shuffleArray\<close>: \<open>for (let i = a.length - 1; i > 0; i--)\<close> with
  \<open>j = Math.floor(Math.random() * (i + 1))\<close> and the swap
  \<open>[a[i], a[j]] = [a[j], a[i]]\<close>. The random source is the function \<open>rnd\<close>: its
  value at \<open>k\<close> is what the \<open>k\<close>-th call of \<open>Math.random()\<close> returns, a number in
  \<open>[0, 1)\<close>, so that \<open>j \<le> i\<close> and both writes are inside the array. The loop counter
  of \<open>shuffle_loop\<close> is \<open>i\<close>; on the empty array \<open>a.length - 1 = -1\<close> and the loop
  does not run, as with the truncated subtraction here.
\<close>

fun shuffle_loop :: "(nat \<Rightarrow> real) \<Rightarrow> nat \<Rightarrow> nat \<Rightarrow> 'a list \<Rightarrow> 'a list" where
  "shuffle_loop rnd k 0 xs = xs"
| "shuffle_loop rnd k (Suc n) xs =
     (let i = Suc n;
          j = nat \<lfloor>rnd k * real (i + 1)\<rfloor>
      in shuffle_loop rnd (Suc k) n (xs[i := xs ! j, j := xs ! i]))"

definition shuffleArray :: "(nat \<Rightarrow> real) \<Rightarrow> 'a list \<Rightarrow> 'a list" where
  "shuffleArray rnd arr = shuffle_loop rnd 0 (length arr - 1) arr"

text \<open>
  \<open>resetSession(n)\<close>: \<open>base = Array.from({ length: n }, (_, i) => i)\<close>,
  \<open>q = shuffle ? shuffleArray(base) : base\<close>, then the six setters. \<open>shuffle\<close> is
  read from the closure.
\<close>

definition resetSession :: "(nat \<Rightarrow> real) \<Rightarrow> nat \<Rightarrow> state \<Rightarrow> state \<Rightarrow> state" where
  "resetSession rnd n c s =
     (let base = map int [0..<n];
          qu = (if shuffle c then shuffleArray rnd base else base)
      in s\<lparr>queue := qu, queueRef := queueRef s + 1, idx := 0, flipped := False,
            known := [], unknown := [], started := False\<rparr>)"

subsection \<open>Text formatting and record normalisation\<close>

text \<open>
  Text is modelled as ASCII \<open>string\<close>. \<open>is_space\<close> is the ASCII part of what
  \<open>String.prototype.trim\<close> strips and the regular expression class \<open>\s\<close> matches
  (tab, line feed, vertical tab, form feed, carriage return, space).
\<close>

definition is_space :: "char \<Rightarrow> bool" where
  "is_space ch = (ch \<in> {CHR 0x09, CHR 0x0A, CHR 0x0B, CHR 0x0C, CHR 0x0D, CHR 0x20})"

definition trim :: "string \<Rightarrow> string" where
  "trim t = rev (dropWhile is_space (rev (dropWhile is_space t)))"

definition is_option_letter :: "char \<Rightarrow> bool" where
  "is_option_letter ch = (ch \<in> {CHR ''A'', CHR ''B'', CHR ''C'', CHR ''D'', CHR ''E''})"

text \<open>
  \<open>text.replace(/([A-E]\.)\s*/g, '\n$1 ')\<close>: scanning from the left, every letter
  \<open>A\<close>..\<open>E\<close> followed by a dot, together with all white space after it, is replaced
  by a line feed, the two characters and one space; the scan goes on after the match.
\<close>

function formatText :: "string \<Rightarrow> string" where
  "formatText [] = []"
| "formatText [ch] = [ch]"
| "formatText (ch # d # rest) =
     (if is_option_letter ch \<and> d = CHR ''.''
      then CHR 0x0A # ch # CHR ''.'' # CHR '' '' # formatText (dropWhile is_space rest)
      else ch # formatText (d # rest))"
  by pat_completeness auto
termination
  by (relation "measure length") (auto simp: less_Suc_eq_le length_dropWhile_le le_SucI)

text \<open>
  The elements of \<open>records: any[]\<close>, as the CSV parser delivers them: a field is a
  string or is missing (\<open>null\<close>/\<open>undefined\<close>, here \<open>None\<close>); a record is an array of
  fields (\<open>Row\<close>), an object (\<open>Obj\<close>, its keys in \<open>Object.keys\<close> order), a falsy
  value (\<open>Falsy\<close>, skipped by \<open>if (!r) continue\<close>) or another primitive (\<open>Prim\<close>, for
  which neither branch of the loop body applies).
\<close>

datatype record_in =
  Falsy
| Row "string option list"
| Obj "(string \<times> string option) list"
| Prim

text \<open>\<open>r[k]\<close> for an array and \<open>r.name\<close> for an object; \<open>x ?? y\<close>.\<close>

definition at_index :: "string option list \<Rightarrow> nat \<Rightarrow> string option" where
  "at_index r k = (if k < length r then r ! k else None)"

definition property :: "(string \<times> string option) list \<Rightarrow> string \<Rightarrow> string option" where
  "property r name = (case map_of r name of None \<Rightarrow> None | Some v \<Rightarrow> v)"

definition nullish :: "'a option \<Rightarrow> 'a option \<Rightarrow> 'a option" where
  "nullish x y = (case x of None \<Rightarrow> y | Some v \<Rightarrow> Some v)"

text \<open>
  \<open>r.question ?? r.Question ?? r.Q ?? r.q\<close> and
  \<open>r.answer ?? r.Answer ?? r.A ?? r.a\<close>.
\<close>

definition questionField :: "(string \<times> string option) list \<Rightarrow> string option" where
  "questionField kvs =
     nullish (property kvs ''question'') (nullish (property kvs ''Question'')
       (nullish (property kvs ''Q'') (property kvs ''q'')))"

definition answerField :: "(string \<times> string option) list \<Rightarrow> string option" where
  "answerField kvs =
     nullish (property kvs ''answer'') (nullish (property kvs ''Answer'')
       (nullish (property kvs ''A'') (property kvs ''a'')))"

text \<open>
  The body of the loop of \<open>normalizeRecords\<close>: the records pushed for one \<open>r\<close>.
  The three places that push are the array branch, the branch for an object with a
  named question and answer, and the fallback on the first two keys.
\<close>

definition normalizeRecord :: "record_in \<Rightarrow> QA list" where
  "normalizeRecord r =
     (case r of
        Falsy \<Rightarrow> []
      | Row fs \<Rightarrow>
          (case (at_index fs 0, at_index fs 1) of
             (Some q0, Some a0) \<Rightarrow>
               if trim q0 \<noteq> [] then [\<lparr>q = formatText (trim q0), a = formatText (trim a0)\<rparr>]
               else []
           | _ \<Rightarrow> [])
      | Obj kvs \<Rightarrow>
          (case (questionField kvs, answerField kvs) of
             (Some q0, Some a0) \<Rightarrow>
               [\<lparr>q = formatText (trim q0), a = formatText (trim a0)\<rparr>]
           | _ \<Rightarrow>
               (let keys = map fst kvs in
                if length keys \<ge> 2 then
                  (case (property kvs (keys ! 0), property kvs (keys ! 1)) of
                     (Some q2, Some a2) \<Rightarrow>
                       if trim q2 \<noteq> []
                       then [\<lparr>q = formatText (trim q2), a = formatText (trim a2)\<rparr>]
                       else []
                   | _ \<Rightarrow> [])
                else []))
      | Prim \<Rightarrow> [])"

definition normalizeRecords :: "record_in list \<Rightarrow> QA list" where
  "normalizeRecords records = concat (map normalizeRecord records)"

text \<open>
  \<open>named_fields r\<close>: the record is handled by the second of the three places, the
  object with a named question and a named answer. \<open>positional\<close> is what the first
  and the third place have in common: both fields present and the question not blank.
\<close>

definition named_fields :: "record_in \<Rightarrow> bool" where
  "named_fields r =
     (case r of Obj kvs \<Rightarrow> questionField kvs \<noteq> None \<and> answerField kvs \<noteq> None
      | _ \<Rightarrow> False)"

definition positional :: "string option \<Rightarrow> string option \<Rightarrow> QA list" where
  "positional q0 a0 =
     (case (q0, a0) of
        (Some q1, Some a1) \<Rightarrow>
          if trim q1 \<noteq> [] then [\<lparr>q = formatText (trim q1), a = formatText (trim a1)\<rparr>] else []
      | _ \<Rightarrow> [])"

text \<open>The text has a place where the regular expression of \<open>formatText\<close> matches.\<close>

fun has_marker :: "string \<Rightarrow> bool" where
  "has_marker (ch # d # rest) =
     ((is_option_letter ch \<and> d = CHR ''.'') \<or> has_marker (d # rest))"
| "has_marker _ = False"

text \<open>
  The completion callback of the CSV parse in \<open>handleFiles\<close>:
  \<open>qas = normalizeRecords(records); setRawRows(qas); resetSession(qas.length)\<close>.
\<close>

definition handleFiles :: "record_in list \<Rightarrow> (nat \<Rightarrow> real) \<Rightarrow> state \<Rightarrow> state \<Rightarrow> state" where
  "handleFiles records rnd c s =
     (let qas = normalizeRecords records
      in resetSession rnd (length qas) c (s\<lparr>rawRows := qas\<rparr>))"

subsection \<open>Saving and loading a study set\<close>

text \<open>
  \<open>type StudySet = { id?, title, questions: Array<{ question, answer }>, created_at?, user_id? }\<close>;
  the optional fields are filled in by the remote table and not read by the code below.
\<close>

record Question =
  question :: string
  answer :: string

record StudySet =
  title :: string
  questions :: "Question list"

text \<open>
  \<open>saveStudySet\<close> up to the remote insert: the entry that is sent, or nothing when the
  title is blank or there are no rows. The remote table is taken to hand back the entry
  it was given.
\<close>

definition saveStudySet :: "state \<Rightarrow> StudySet option" where
  "saveStudySet c =
     (if trim (currentSetTitle c) = [] \<or> length (rawRows c) = 0 then None
      else Some \<lparr>title = currentSetTitle c,
                 questions = map (\<lambda>row. \<lparr>question = q row, answer = a row\<rparr>) (rawRows c)\<rparr>)"

definition loadStudySet :: "StudySet \<Rightarrow> (nat \<Rightarrow> real) \<Rightarrow> state \<Rightarrow> state \<Rightarrow> state" where
  "loadStudySet studySet rnd c s =
     (let qas = map (\<lambda>x. \<lparr>q = formatText (question x), a = formatText (answer x)\<rparr>)
                  (questions studySet)
      in (resetSession rnd (length qas) c (s\<lparr>rawRows := qas\<rparr>))
           \<lparr>currentSetTitle := title studySet, showSavedSets := False\<rparr>)"

subsection \<open>Keyboard and switches\<close>

text \<open>
  \<open>onKey\<close>: the five tests are separate \<open>if\<close> statements, run in order. \<open>u\<close> is the
  random number \<open>markUnknown\<close> draws. The functions it calls are those of its own render.
\<close>

record KeyboardEvent =
  key :: string
  code :: string

definition onKey :: "KeyboardEvent \<Rightarrow> real \<Rightarrow> state \<Rightarrow> state \<Rightarrow> state" where
  "onKey e u c s =
     (if \<not> started c then s
      else
        let s1 = (if key e = '' '' \<or> code e = ''Space'' then toggleFlip s else s);
            s2 = (if key e = ''ArrowRight'' then next c s1 else s1);
            s3 = (if key e = ''ArrowLeft'' then prev c s2 else s2);
            s4 = (if key e = ''1'' then markKnown c s3 else s3);
            s5 = (if key e = ''2'' then markUnknown u c s4 else s4)
        in s5)"

text \<open>
  The navigation and classification buttons are inside
  \<open>{rawRows.length > 0 && (... {started ? (...buttons...) : (...)} ...)}\<close>.
\<close>

definition studyControlsRendered :: "state \<Rightarrow> bool" where
  "studyControlsRendered c = (length (rawRows c) > 0 \<and> started c)"

text \<open>
  A \<open>Switch\<close> calls \<open>onCheckedChange(!checked)\<close> when clicked. The shuffle switch of
  the upload card has \<open>onCheckedChange={setShuffle}\<close>; the one of the session options
  has \<open>(v) => { setShuffle(v); resetSession(rawRows.length); }\<close>; the switches for
  \<open>autoRepeatUnknown\<close> and \<open>reverse\<close> pass their setter.
\<close>

definition uploadShuffleSwitch :: "state \<Rightarrow> state \<Rightarrow> state" where
  "uploadShuffleSwitch c s = s\<lparr>shuffle := \<not> shuffle c\<rparr>"

definition sessionShuffleSwitch :: "(nat \<Rightarrow> real) \<Rightarrow> state \<Rightarrow> state \<Rightarrow> state" where
  "sessionShuffleSwitch rnd c s =
     (let v = \<not> shuffle c
      in resetSession rnd (length (rawRows c)) c (s\<lparr>shuffle := v\<rparr>))"

definition autoRepeatSwitch :: "state \<Rightarrow> state \<Rightarrow> state" where
  "autoRepeatSwitch c s = s\<lparr>autoRepeatUnknown := \<not> autoRepeatUnknown c\<rparr>"

definition reverseSwitch :: "state \<Rightarrow> state \<Rightarrow> state" where
  "reverseSwitch c s = s\<lparr>reverse := \<not> reverse c\<rparr>"

subsection \<open>Renders and the keyboard listener\<close>

text \<open>
  \<open>onKey = useCallback(..., [started, idx, queue])\<close> and the effect that registers it
  on \<open>window\<close>: after a render the listener is the closure of that render when one of
  the three dependencies changed (the array by reference), and the listener of before
  otherwise. \<open>app\<close> pairs the live state with the render the registered listener
  belongs to. A click runs the handler of the latest render.
\<close>

record app =
  live :: state
  keyRender :: state

definition rerender :: "app \<Rightarrow> state \<Rightarrow> app" where
  "rerender ap s' =
     \<lparr>live = s',
      keyRender = (if started s' = started (keyRender ap) \<and> idx s' = idx (keyRender ap)
                      \<and> queueRef s' = queueRef (keyRender ap)
                   then keyRender ap else s')\<rparr>"

definition keydown :: "KeyboardEvent \<Rightarrow> real \<Rightarrow> app \<Rightarrow> app" where
  "keydown e u ap = rerender ap (onKey e u (keyRender ap) (live ap))"

definition click :: "(state \<Rightarrow> state \<Rightarrow> state) \<Rightarrow> app \<Rightarrow> app" where
  "click h ap = rerender ap (h (live ap) (live ap))"

text \<open>
  The four buttons of the card: \<open>onClick={prev}\<close> with \<open>disabled={idx===0}\<close>,
  \<open>onClick={markUnknown}\<close>, \<open>onClick={markKnown}\<close> and \<open>onClick={next}\<close> with
  \<open>disabled={idx>=queue.length-1}\<close>. A button that is not rendered or is disabled
  receives no click, so pressing it leaves the component as it is.
\<close>

datatype button = PrevButton | UnknownButton | KnownButton | NextButton

definition buttonHandler :: "button \<Rightarrow> real \<Rightarrow> state \<Rightarrow> state \<Rightarrow> state" where
  "buttonHandler b u =
     (case b of PrevButton \<Rightarrow> prev | UnknownButton \<Rightarrow> markUnknown u
      | KnownButton \<Rightarrow> markKnown | NextButton \<Rightarrow> next)"

definition buttonDisabled :: "button \<Rightarrow> state \<Rightarrow> bool" where
  "buttonDisabled b c =
     (case b of PrevButton \<Rightarrow> idx c = 0
      | NextButton \<Rightarrow> int (idx c) \<ge> int (length (queue c)) - 1
      | _ \<Rightarrow> False)"

definition press :: "button \<Rightarrow> real \<Rightarrow> app \<Rightarrow> app" where
  "press b u ap =
     (if studyControlsRendered (live ap) \<and> \<not> buttonDisabled b (live ap)
      then click (buttonHandler b u) ap else ap)"

text \<open>
  \<open>handleFiles\<close> is memoised with an empty dependency list: it stays the closure of
  the first render, whose cells hold \<open>initialState\<close>.
\<close>

definition fileParsed :: "record_in list \<Rightarrow> (nat \<Rightarrow> real) \<Rightarrow> app \<Rightarrow> app" where
  "fileParsed records rnd ap = rerender ap (handleFiles records rnd initialState (live ap))"

definition initialApp :: app where
  "initialApp = \<lparr>live = initialState, keyRender = initialState\<rparr>"

subsection \<open>Example states\<close>

text \<open>A session at the second of three cards, and a session of one card.\<close>

definition exampleMiddle :: state where
  "exampleMiddle =
     initialState\<lparr>queue := [0, 1, 2], idx := 1, flipped := True, started := True\<rparr>"

definition exampleSingle :: state where
  "exampleSingle = initialState\<lparr>queue := [0], idx := 0, flipped := True, started := True\<rparr>"

text \<open>A session at the last of 400 cards.\<close>

definition exampleLong :: state where
  "exampleLong = initialState\<lparr>queue := map int [0..<400], idx := 399, started := True\<rparr>"

text \<open>A deck of two cards whose session has not been started.\<close>

definition exampleNotStarted :: state where
  "exampleNotStarted =
     initialState\<lparr>rawRows := [\<lparr>q = ''Q1'', a = ''A1''\<rparr>, \<lparr>q = ''Q2'', a = ''A2''\<rparr>],
                   queue := [0, 1]\<rparr>"

text \<open>The key \<open>1\<close>.\<close>

definition digit1 :: KeyboardEvent where
  "digit1 = \<lparr>key = ''1'', code = ''Digit1''\<rparr>"

text \<open>Twenty cards, card \<open>5\<close> first; five cards, card \<open>3\<close> at the cursor.\<close>

definition exampleTwenty :: state where
  "exampleTwenty =
     initialState\<lparr>queue := [5, 0, 1, 2, 3, 4, 6, 7, 8, 9, 10, 11, 12, 13, 14, 15, 16, 17, 18, 19],
                   started := True\<rparr>"

definition exampleFive :: state where
  "exampleFive = initialState\<lparr>queue := [4, 2, 3, 0, 1], idx := 2, started := True\<rparr>"

text \<open>Two random sources: every draw \<open>1/2\<close>, every draw \<open>0\<close>.\<close>

definition halves :: "nat \<Rightarrow> real" where
  "halves k = 1 / 2"

definition zeros :: "nat \<Rightarrow> real" where
  "zeros k = 0"

text \<open>
  The component after a CSV file with the header \<open>question,answer\<close> and one row
  (\<open>Q,A\<close>), or two rows (\<open>Q1,A1\<close> and \<open>Q2,A2\<close>), has been parsed and the start
  button clicked.
\<close>

definition exampleOneCard :: app where
  "exampleOneCard =
     click startSession
       (fileParsed [Obj [(''question'', Some ''Q''), (''answer'', Some ''A'')]] halves
          initialApp)"

definition exampleTwoCards :: app where
  "exampleTwoCards =
     click startSession
       (fileParsed [Obj [(''question'', Some ''Q1''), (''answer'', Some ''A1'')],
                    Obj [(''question'', Some ''Q2''), (''answer'', Some ''A2'')]] halves
          initialApp)"

text \<open>
  Parsed CSV rows: a row under the header \<open>front,back\<close> with a blank answer, and a
  row under the header \<open>question,answer\<close> with a blank question. Then three rows
  under \<open>front,back\<close>, the second with a blank question and the third with a blank
  answer.
\<close>

definition exampleRecords :: "record_in list" where
  "exampleRecords =
     [Obj [(''front'', Some ''Q''), (''back'', Some '' '')],
      Obj [(''question'', Some '' ''), (''answer'', Some ''x'')]]"

definition exampleRows :: "record_in list" where
  "exampleRows =
     [Obj [(''front'', Some '' Q ''), (''back'', Some ''A'')],
      Obj [(''front'', Some '' ''), (''back'', Some ''A'')],
      Obj [(''front'', Some ''Q3''), (''back'', Some '' '')]]"

text \<open>The keys \<open>2\<close> and \<open>ArrowLeft\<close>.\<close>

definition digit2 :: KeyboardEvent where
  "digit2 = \<lparr>key = ''2'', code = ''Digit2''\<rparr>"

definition arrowLeft :: KeyboardEvent where
  "arrowLeft = \<lparr>key = ''ArrowLeft'', code = ''ArrowLeft''\<rparr>"

text \<open>
  The component after the two-row file has been parsed (\<open>exampleLoaded\<close>), and
  after the repeat switch of the upload card has then been switched off and the
  start button clicked (\<open>exampleRepeatOff\<close>).
\<close>

definition exampleLoaded :: app where
  "exampleLoaded =
     fileParsed [Obj [(''question'', Some ''Q1''), (''answer'', Some ''A1'')],
                 Obj [(''question'', Some ''Q2''), (''answer'', Some ''A2'')]] halves
       initialApp"

definition exampleRepeatOff :: app where
  "exampleRepeatOff = click startSession (click autoRepeatSwitch exampleLoaded)"

text \<open>
  A file of three rows, and the component after that file has been parsed and the
  shuffle switch of the upload card switched off.
\<close>

definition exampleThreeRows :: "record_in list" where
  "exampleThreeRows =
     [Obj [(''question'', Some ''Q1''), (''answer'', Some ''A1'')],
      Obj [(''question'', Some ''Q2''), (''answer'', Some ''A2'')],
      Obj [(''question'', Some ''Q3''), (''answer'', Some ''A3'')]]"

definition exampleShuffleOff :: app where
  "exampleShuffleOff = click uploadShuffleSwitch (fileParsed exampleThreeRows halves initialApp)"

text \<open>A session at position 23 of 40 cards.\<close>

definition exampleForty :: state where
  "exampleForty = initialState\<lparr>queue := map int [0..<40], idx := 23, started := True\<rparr>"

text \<open>A titled deck of one card whose question holds a formatted option marker.\<close>

definition exampleDeck :: state where
  "exampleDeck =
     initialState\<lparr>rawRows := [\<lparr>q = formatText ''Pick A.x'', a = ''x''\<rparr>],
                   queue := [0], currentSetTitle := ''set''\<rparr>"

section \<open>Unfolding the examples\<close>

lemmas app_defs = click_def keydown_def fileParsed_def rerender_def initialApp_def
  initialState_def handleFiles_def normalizeRecords_def normalizeRecord_def at_index_def
  resetSession_def shuffleArray_def startSession_def onKey_def markKnown_def markUnknown_def
  next_def prev_def currentIndex_def trim_def is_space_def is_option_letter_def Let_def
  questionField_def answerField_def property_def nullish_def halves_def zeros_def digit1_def

lemmas trace_defs = exampleRepeatOff_def exampleLoaded_def exampleShuffleOff_def
  exampleThreeRows_def autoRepeatSwitch_def uploadShuffleSwitch_def digit2_def arrowLeft_def
  toggleFlip_def splice_insert_def insertAt_def minGap_def press_def buttonHandler_def
  buttonDisabled_def studyControlsRendered_def

section \<open>Navigation (C3)\<close>

lemma next_fields:
  "queue (next c s) = queue s" "known (next c s) = known s" "unknown (next c s) = unknown s"
  "started (next c s) = started s" "rawRows (next c s) = rawRows s"
  "queueRef (next c s) = queueRef s" "shuffle (next c s) = shuffle s"
  "autoRepeatUnknown (next c s) = autoRepeatUnknown s"
  by (simp_all add: next_def)

lemma prev_fields:
  "queue (prev c s) = queue s" "known (prev c s) = known s" "unknown (prev c s) = unknown s"
  "started (prev c s) = started s" "rawRows (prev c s) = rawRows s"
  "queueRef (prev c s) = queueRef s" "shuffle (prev c s) = shuffle s"
  "autoRepeatUnknown (prev c s) = autoRepeatUnknown s"
  by (simp_all add: prev_def)

text \<open>
  C3. Run from the current render, \<open>next\<close> moves the cursor one step forward and
  shows the front of the card when \<open>idx < |queue| - 1\<close>, and otherwise returns the
  state as it is (no wrap-around); \<open>prev\<close> moves one step back and shows the front
  when \<open>idx > 0\<close>, and otherwise returns the state as it is. A navigation that does
  not move leaves \<open>flipped\<close> alone; neither touches the queue or the two sets.
\<close>

theorem navigation_next_prev:
  "(int (idx s) < int (length (queue s)) - 1 \<longrightarrow>
      idx (next s s) = idx s + 1 \<and> \<not> flipped (next s s) \<and> idx (next s s) < length (queue s))
   \<and> (\<not> int (idx s) < int (length (queue s)) - 1 \<longrightarrow> next s s = s)
   \<and> (idx s > 0 \<longrightarrow> idx (prev s s) = idx s - 1 \<and> \<not> flipped (prev s s))
   \<and> (idx s = 0 \<longrightarrow> prev s s = s)
   \<and> queue (next s s) = queue s \<and> known (next s s) = known s \<and> unknown (next s s) = unknown s
   \<and> queue (prev s s) = queue s \<and> known (prev s s) = known s \<and> unknown (prev s s) = unknown s"
  by (simp add: next_def prev_def)

theorem navigation_next_prev_witness:
  "int (idx exampleMiddle) < int (length (queue exampleMiddle)) - 1
   \<and> idx exampleMiddle > 0
   \<and> idx (next exampleMiddle exampleMiddle) = 2 \<and> \<not> flipped (next exampleMiddle exampleMiddle)
   \<and> idx (prev exampleMiddle exampleMiddle) = 0 \<and> \<not> flipped (prev exampleMiddle exampleMiddle)
   \<and> \<not> int (idx exampleSingle) < int (length (queue exampleSingle)) - 1
   \<and> idx exampleSingle = 0
   \<and> next exampleSingle exampleSingle = exampleSingle
   \<and> prev exampleSingle exampleSingle = exampleSingle
   \<and> flipped (next exampleSingle exampleSingle)"
  using navigation_next_prev [of exampleMiddle] navigation_next_prev [of exampleSingle]
  by (simp add: exampleMiddle_def exampleSingle_def initialState_def)

section \<open>Progress (C4)\<close>

lemma round_even_cases: "round_even y = \<lfloor>y\<rfloor> \<or> round_even y = \<lfloor>y\<rfloor> + 1"
  by (simp add: round_even_def Let_def)

lemma round_even_nonneg: "0 \<le> y \<Longrightarrow> 0 \<le> round_even y"
  using round_even_cases [of y] by (auto simp: zero_le_floor)

lemma round_even_le_int:
  assumes "y \<le> of_int k"
  shows "round_even y \<le> k"
proof (cases "y = of_int k")
  case True
  then show ?thesis by (simp add: round_even_def Let_def)
next
  case False
  then have "y < of_int k" using assms by simp
  then have "\<lfloor>y\<rfloor> < k" by (simp add: floor_less_iff)
  then show ?thesis using round_even_cases [of y] by auto
qed

lemma round_even_upper: "of_int (round_even y) \<le> y + 1 / 2"
proof -
  define f where "f = \<lfloor>y\<rfloor>"
  have lo: "of_int f \<le> y" by (simp add: f_def)
  consider "y - of_int f < 1 / 2" | "\<not> y - of_int f < 1 / 2"
    by blast
  then show ?thesis
  proof cases
    case 1
    then have "round_even y = f" by (simp add: round_even_def Let_def f_def)
    then show ?thesis using lo by simp
  next
    case 2
    have "round_even y \<le> f + 1"
      using round_even_cases [of y] by (auto simp: f_def)
    then have "(of_int (round_even y) :: real) \<le> of_int f + 1"
      by (metis of_int_le_iff of_int_add of_int_1)
    then show ?thesis using 2 by linarith
  qed
qed

lemma exponent_up_le: "x < 2 ^ Suc k \<Longrightarrow> exponent_up n x \<le> int k"
proof (induction n arbitrary: x k)
  case 0
  then show ?case by simp
next
  case (Suc n)
  show ?case
  proof (cases "x < 2")
    case True
    then show ?thesis by simp
  next
    case False
    then have "k \<noteq> 0" using Suc.prems by (cases k) auto
    then obtain k' where k: "k = Suc k'" by (cases k) auto
    have "x / 2 < 2 ^ Suc k'" using Suc.prems by (simp add: k)
    then have "exponent_up n (x / 2) \<le> int k'" by (rule Suc.IH)
    then show ?thesis using False by (simp add: k)
  qed
qed

lemma exponent_down_le: "exponent_down n x \<le> 0"
proof (induction n arbitrary: x)
  case 0
  then show ?case by simp
next
  case (Suc n)
  have "exponent_down n (2 * x) \<le> 0" by (rule Suc.IH)
  then show ?case by simp
qed

lemma exponent_le:
  assumes "x < 2 ^ Suc k"
  shows "exponent x \<le> int k"
  using exponent_up_le [OF assms] exponent_down_le [of 1022 x]
  by (auto simp: exponent_def intro: order_trans)

lemma exponent_lt_one: "x < 1 \<Longrightarrow> exponent x \<le> 0"
  by (simp add: exponent_def exponent_down_le)

text \<open>
  A number from \<open>0\<close> up to \<open>2^53\<close> is rounded to a multiple of a power of two
  that is at most one.
\<close>

lemma to_double_scaled:
  assumes "0 \<le> x" "exponent x \<le> 52"
  shows "to_double x =
    of_int (round_even (x * 2 ^ nat (52 - exponent x))) / 2 ^ nat (52 - exponent x)"
proof (cases "x = 0")
  case True
  then show ?thesis by (simp add: to_double_def Let_def round_even_def)
next
  case False
  then have "sgn x = 1" "\<bar>x\<bar> = x" using assms by auto
  then show ?thesis using assms(2) by (simp add: to_double_def Let_def)
qed

lemma to_double_nonneg:
  assumes "0 \<le> x" "exponent x \<le> 52"
  shows "0 \<le> to_double x"
  unfolding to_double_scaled [OF assms]
  using assms(1) by (simp add: round_even_nonneg)

text \<open>Rounding does not step over an integer.\<close>

lemma to_double_le_int:
  assumes "0 \<le> x" "exponent x \<le> 52" "x \<le> of_int k"
  shows "to_double x \<le> of_int k"
proof -
  define N where "N = nat (52 - exponent x)"
  have "x * 2 ^ N \<le> of_int (k * 2 ^ N)" using assms(3) by simp
  then have "round_even (x * 2 ^ N) \<le> k * 2 ^ N" by (rule round_even_le_int)
  then have "(of_int (round_even (x * 2 ^ N)) :: real) \<le> of_int (k * 2 ^ N)"
    by (simp only: of_int_le_iff)
  then have "of_int (round_even (x * 2 ^ N)) / 2 ^ N \<le> (of_int k :: real)"
    by (simp add: divide_le_eq)
  then show ?thesis unfolding to_double_scaled [OF assms(1,2)] N_def .
qed

text \<open>Rounding adds at most half a unit in the last place.\<close>

lemma to_double_upper:
  assumes "0 \<le> x" "exponent x \<le> int e0" "e0 \<le> 52"
  shows "to_double x \<le> x + 1 / 2 ^ (53 - e0)"
proof -
  define N where "N = nat (52 - exponent x)"
  have e52: "exponent x \<le> 52" using assms by simp
  have N: "52 - e0 \<le> N" using assms by (simp add: N_def)
  have "of_int (round_even (x * 2 ^ N)) \<le> x * 2 ^ N + 1 / 2" by (rule round_even_upper)
  then have "of_int (round_even (x * 2 ^ N)) / 2 ^ N \<le> (x * 2 ^ N + 1 / 2) / 2 ^ N"
    by (simp add: divide_right_mono)
  also have "\<dots> = x + 1 / 2 ^ Suc N" by (simp add: field_simps)
  also have "\<dots> \<le> x + 1 / 2 ^ (53 - e0)"
  proof -
    have "53 - e0 \<le> Suc N" using N assms(3) by simp
    then have "(2::real) ^ (53 - e0) \<le> 2 ^ Suc N" by (intro power_increasing) auto
    then show ?thesis by (simp add: field_simps)
  qed
  finally show ?thesis unfolding to_double_scaled [OF assms(1) e52] N_def .
qed

text \<open>The value handed to \<open>Math.round\<close> for a cursor \<open>c\<close> inside a queue of \<open>n\<close>.\<close>

lemma percent_bounds:
  assumes cn: "c < n"
  shows "0 \<le> double_mul (double_div (real c) (real n)) 100"
    and "double_mul (double_div (real c) (real n)) 100 \<le> 100"
    and "n < 200 \<Longrightarrow> double_mul (double_div (real c) (real n)) 100 < 995 / 10"
proof -
  define x where "x = real c / real n"
  define x1 where "x1 = to_double x"
  define y where "y = x1 * 100"
  have n: "0 < n" using cn by simp
  have x0: "0 \<le> x" and xl: "x < 1" using cn n by (simp_all add: x_def)
  have ex: "exponent x \<le> 0" using xl by (rule exponent_lt_one)
  then have ex52: "exponent x \<le> 52" by simp
  have x10: "0 \<le> x1" unfolding x1_def by (rule to_double_nonneg [OF x0 ex52])
  have "to_double x \<le> of_int 1"
    by (rule to_double_le_int [OF x0 ex52]) (use xl in simp)
  then have x11: "x1 \<le> 1" by (simp add: x1_def)
  have y0: "0 \<le> y" and y100: "y \<le> 100" using x10 x11 by (simp_all add: y_def)
  have "y < 2 ^ Suc 6" using y100 by simp
  then have ey: "exponent y \<le> int 6" by (rule exponent_le)
  then have ey52: "exponent y \<le> 52" by simp
  have r: "double_mul (double_div (real c) (real n)) 100 = to_double y"
    by (simp add: double_mul_def double_div_def y_def x1_def x_def)
  show "0 \<le> double_mul (double_div (real c) (real n)) 100"
    unfolding r by (rule to_double_nonneg [OF y0 ey52])
  have "to_double y \<le> of_int 100"
    by (rule to_double_le_int [OF y0 ey52]) (use y100 in simp)
  then show "double_mul (double_div (real c) (real n)) 100 \<le> 100"
    unfolding r by simp
  show "double_mul (double_div (real c) (real n)) 100 < 995 / 10" if n200: "n < 200"
  proof -
    have "199 * c \<le> 198 * n" using cn n200 by simp
    then have "real (199 * c) \<le> real (198 * n)" by (simp only: of_nat_le_iff)
    then have xb: "x \<le> 198 / 199" using n by (simp add: x_def field_simps)
    have "x1 \<le> x + 1 / 2 ^ (53 - 0)"
      unfolding x1_def by (rule to_double_upper [OF x0]) (use ex in simp_all)
    then have x1b: "x1 \<le> 198 / 199 + 1 / 2 ^ 53" using xb by simp
    have "to_double y \<le> y + 1 / 2 ^ (53 - 6)"
      by (rule to_double_upper [OF y0 ey]) simp
    then have "to_double y \<le> (198 / 199 + 1 / 2 ^ 53) * 100 + 1 / 2 ^ 47"
      using x1b by (simp add: y_def)
    also have "\<dots> < 995 / 10" by simp
    finally show ?thesis unfolding r .
  qed
qed

lemma exponent_up_numeral:
  "exponent_up (numeral k) x =
     (if x < 2 then 0 else 1 + exponent_up (pred_numeral k) (x / 2))"
  by (simp add: numeral_eq_Suc)

lemma exponent_down_numeral:
  "exponent_down (numeral k) x =
     (if 1 \<le> x then 0 else exponent_down (pred_numeral k) (2 * x) - 1)"
  by (simp add: numeral_eq_Suc)

lemmas double_defs = double_mul_def double_div_def to_double_def exponent_def round_even_def
  Math_round_def Let_def exponent_up_numeral exponent_down_numeral

lemma progress_at:
  "i < n \<Longrightarrow> progress (initialState\<lparr>queue := map int [0..<n], idx := i, started := True\<rparr>)
     = Math_round (double_mul (double_div (real i) (real n)) 100)"
  by (simp add: progress_def total_def)

text \<open>
  Binary64 is visible in the result: at position 23 of 40 the quotient \<open>0.575\<close> is
  rounded down, the product is \<open>57.49999999999999\<close> and the progress is \<open>57\<close>,
  where the exact quotient would give \<open>57.5\<close> and \<open>58\<close>.
\<close>

lemma progress_23_of_40: "progress exampleForty = 57"
proof -
  have "progress exampleForty = Math_round (double_mul (double_div 23 40) 100)"
    unfolding exampleForty_def using progress_at [of 23 40] by simp
  also have "\<dots> = 57" by (simp add: double_defs)
  finally show ?thesis .
qed

text \<open>
  C4, as stated, bounds the progress value by \<open>[0, 100)\<close> whenever the cursor is a
  valid position. At the last of 400 cards the product is \<open>99.75\<close>, which
  \<open>Math.round\<close> takes to \<open>100\<close>.
\<close>

theorem progress_reaches_100:
  "idx exampleLong < length (queue exampleLong) \<and> \<not> progress exampleLong < 100"
proof -
  have "progress exampleLong = Math_round (double_mul (double_div 399 400) 100)"
    unfolding exampleLong_def using progress_at [of 399 400] by simp
  also have "\<dots> = 100" by (simp add: double_defs)
  finally have "progress exampleLong = 100" .
  then show ?thesis by (simp add: exampleLong_def)
qed

text \<open>
  C4, amended. \<open>progress\<close> is \<open>Math.round\<close> of \<open>idx / |queue| * 100\<close>, computed
  in binary64, for a non-empty queue and \<open>0\<close> for the empty one; for a valid
  cursor it lies in the closed interval \<open>[0, 100]\<close>, and it is below \<open>100\<close> for
  every valid cursor of a queue shorter than 200.
\<close>

theorem progress_range:
  "progress s = (if length (queue s) = 0 then 0
                 else Math_round (double_mul (double_div (real (idx s))
                                                (real (length (queue s)))) 100))
   \<and> (idx s < length (queue s) \<longrightarrow>
         0 \<le> progress s \<and> progress s \<le> 100
         \<and> (length (queue s) < 200 \<longrightarrow> progress s < 100))"
proof -
  define v where "v = double_mul (double_div (real (idx s)) (real (length (queue s)))) 100"
  have def: "progress s = (if length (queue s) = 0 then 0 else Math_round v)"
    by (simp add: progress_def total_def v_def)
  have rng: "0 \<le> progress s \<and> progress s \<le> 100
         \<and> (length (queue s) < 200 \<longrightarrow> progress s < 100)"
    if lt: "idx s < length (queue s)"
  proof -
    note b = percent_bounds [OF lt, folded v_def]
    have "length (queue s) \<noteq> 0" using lt by auto
    then have p: "progress s = \<lfloor>v + 1 / 2\<rfloor>"
      by (simp only: def Math_round_def if_False)
    have "0 \<le> v + 1 / 2" using b(1) by simp
    then have lo: "0 \<le> \<lfloor>v + 1 / 2\<rfloor>" by simp
    have "v + 1 / 2 < 101" using b(2) by simp
    then have hi: "\<lfloor>v + 1 / 2\<rfloor> \<le> 100" by (simp add: floor_le_iff)
    have "\<lfloor>v + 1 / 2\<rfloor> < 100" if "length (queue s) < 200"
    proof -
      have "v + 1 / 2 < 100" using b(3) [OF that] by simp
      then show ?thesis by (simp add: floor_less_iff)
    qed
    then show ?thesis using lo hi by (simp add: p)
  qed
  show ?thesis using def rng unfolding v_def by blast
qed

theorem progress_range_witness:
  "idx exampleMiddle < length (queue exampleMiddle)
   \<and> length (queue exampleMiddle) < 200
   \<and> progress exampleMiddle = 33"
proof -
  have "progress exampleMiddle = Math_round (double_mul (double_div 1 3) 100)"
    by (simp add: exampleMiddle_def initialState_def progress_def total_def)
  also have "\<dots> = 33" by (simp add: double_defs)
  finally have p: "progress exampleMiddle = 33" .
  show ?thesis
    using p progress_range [of exampleMiddle]
    by (simp add: exampleMiddle_def initialState_def)
qed

section \<open>Inert before the start (C5)\<close>

text \<open>
  After every render the listener's \<open>started\<close> is that of the live state, since
  \<open>started\<close> is one of its dependencies; so it is after every event, and at the start.
\<close>

lemma rerender_started: "started (keyRender (rerender ap s')) = started (live (rerender ap s'))"
  by (simp add: rerender_def)

lemma events_keep_started:
  "started (keyRender initialApp) = started (live initialApp)"
  "started (keyRender (keydown e u ap)) = started (live (keydown e u ap))"
  "started (keyRender (click h ap)) = started (live (click h ap))"
  "started (keyRender (fileParsed records rnd ap)) = started (live (fileParsed records rnd ap))"
  "started (keyRender ap) = started (live ap) \<Longrightarrow>
     started (keyRender (press b u ap)) = started (live (press b u ap))"
  by (simp_all add: initialApp_def keydown_def click_def fileParsed_def press_def
      rerender_started)

text \<open>Stated for the component as any render leaves it.\<close>

lemma inert_after_render:
  "\<not> started s \<Longrightarrow>
     live (keydown e u (rerender ap s)) = s \<and> live (press b u (rerender ap s)) = s"
  by (simp add: keydown_def press_def onKey_def rerender_def studyControlsRendered_def)

text \<open>
  C5. While \<open>started\<close> is false, every trigger of \<open>next\<close>, \<open>prev\<close>, \<open>markKnown\<close>
  and \<open>markUnknown\<close> that the component has leaves the whole state, and with it the
  cursor, \<open>flipped\<close>, \<open>known\<close>, \<open>unknown\<close> and the queue, unchanged: the keyboard
  listener returns at once for every key, and the four buttons are not rendered.
\<close>

theorem inert_before_start:
  "\<not> started (live ap) \<and> started (keyRender ap) = started (live ap) \<longrightarrow>
     live (keydown e u ap) = live ap \<and> live (press b u ap) = live ap"
  by (simp add: keydown_def press_def onKey_def rerender_def studyControlsRendered_def)

theorem inert_before_start_witness:
  "\<not> started (live exampleLoaded)
   \<and> started (keyRender exampleLoaded) = started (live exampleLoaded)
   \<and> queue (live exampleLoaded) = [0, 1]
   \<and> live (keydown digit1 0 exampleLoaded) = live exampleLoaded
   \<and> live (keydown digit2 0 exampleLoaded) = live exampleLoaded
   \<and> live (press NextButton 0 exampleLoaded) = live exampleLoaded
   \<and> live (press KnownButton 0 exampleLoaded) = live exampleLoaded"
  using inert_before_start [of exampleLoaded digit1 0 NextButton]
    inert_before_start [of exampleLoaded digit2 0 KnownButton]
  by (simp add: exampleLoaded_def fileParsed_def rerender_def initialApp_def initialState_def
      handleFiles_def normalizeRecords_def normalizeRecord_def resetSession_def
      shuffleArray_def trim_def is_space_def is_option_letter_def Let_def
      questionField_def answerField_def property_def nullish_def halves_def)

section \<open>Re-insertion of an unknown card (C1)\<close>

lemma splice_insert_in_range:
  "0 \<le> k \<Longrightarrow> k \<le> int (length xs) \<Longrightarrow>
   splice_insert k x xs = take (nat k) xs @ [x] @ drop (nat k) xs"
  by (simp add: splice_insert_def Let_def min_def)

lemma jitter_range: "0 \<le> u \<Longrightarrow> u < 1 \<Longrightarrow> 0 \<le> \<lfloor>u * 5\<rfloor> \<and> \<lfloor>u * 5\<rfloor> \<le> 4"
  by (simp add: floor_le_iff)

lemma insertAt_nat:
  assumes "0 \<le> u" "u < 1"
  shows "insertAt c u copy =
     int (min (length copy)
            (idx c + max 10 (nat \<lfloor>real (length copy) * 0.3\<rfloor>) + nat \<lfloor>u * 5\<rfloor>))"
proof -
  define g where "g = nat \<lfloor>real (length copy) * 0.3\<rfloor>"
  define j where "j = nat \<lfloor>u * 5\<rfloor>"
  have "0 \<le> \<lfloor>real (length copy) * 0.3\<rfloor>" by simp
  then have g: "\<lfloor>real (length copy) * 0.3\<rfloor> = int g" by (simp add: g_def)
  have j: "\<lfloor>u * 5\<rfloor> = int j" using jitter_range [OF assms] by (simp add: j_def)
  have "min (int (length copy)) (int (idx c) + max 10 (int g) + int j)
        = int (min (length copy) (idx c + max 10 g + j))"
    by (simp add: min_def max_def)
  then show ?thesis
    unfolding insertAt_def minGap_def g j by (simp add: g_def j_def)
qed

lemma currentIndex_nonneg: "0 \<le> currentIndex s \<Longrightarrow> idx s < length (queue s)"
  by (simp add: currentIndex_def split: if_splits)

text \<open>The queue and the cursor after \<open>markUnknown\<close> under the repeat option.\<close>

lemma markUnknown_queue:
  assumes rep: "autoRepeatUnknown s" and cur: "0 \<le> currentIndex s"
    and u: "0 \<le> u" "u < 1"
    and p: "p = min (length (queue s))
                  (idx s + max 10 (nat \<lfloor>real (length (queue s)) * 0.3\<rfloor>) + nat \<lfloor>u * 5\<rfloor>)"
  shows "queue (markUnknown u s s) = take p (queue s) @ [currentIndex s] @ drop p (queue s)"
    and "idx s < p" and "p \<le> length (queue s)"
    and "idx (markUnknown u s s) = (if idx s + 1 < length (queue s) then idx s + 1 else idx s)"
proof -
  have lt: "idx s < length (queue s)" using currentIndex_nonneg [OF cur] .
  have ins: "insertAt s u (queue s) = int p"
    using insertAt_nat [OF u] by (simp add: p)
  show pn: "p \<le> length (queue s)" by (simp add: p)
  show "queue (markUnknown u s s) = take p (queue s) @ [currentIndex s] @ drop p (queue s)"
    using rep cur pn
    by (simp add: markUnknown_def Let_def next_fields ins splice_insert_in_range)
  have "10 \<le> max 10 (nat \<lfloor>real (length (queue s)) * 0.3\<rfloor>)" by (rule max.cobounded1)
  then show "idx s < p" using lt unfolding p by linarith
  show "idx (markUnknown u s s) = (if idx s + 1 < length (queue s) then idx s + 1 else idx s)"
    using rep cur by (auto simp: markUnknown_def Let_def next_def)
qed

text \<open>
  The button. With the repeat option on and a current card, \<open>markUnknown\<close> run from
  the current render (its random number \<open>u\<close> in \<open>[0, 1)\<close>) inserts one copy of
  \<open>currentIndex\<close> into the queue at position
  \<open>p = min(|queue|, idx + max(10, floor(|queue| * 0.3)) + j)\<close> with the jitter
  \<open>j = floor(u * 5)\<close> in \<open>{0, 1, 2, 3, 4}\<close>; the queue grows by exactly one. The
  position is computed from the cursor before it advances and lies behind it; the
  cursor then advances as \<open>next\<close> does. With 20 cards and the cursor at 0 the copy
  lands at a position in \<open>[10, 14]\<close> and the queue has 21 entries.
\<close>

lemma markUnknown_reinsertion:
  assumes rep: "autoRepeatUnknown s" and cur: "0 \<le> currentIndex s"
    and u: "0 \<le> u" "u < 1"
  shows "(let n = length (queue s);
              j = nat \<lfloor>u * 5\<rfloor>;
              p = min n (idx s + max 10 (nat \<lfloor>real n * 0.3\<rfloor>) + j);
              s' = markUnknown u s s
          in j \<in> {0, 1, 2, 3, 4}
             \<and> queue s' = take p (queue s) @ [currentIndex s] @ drop p (queue s)
             \<and> length (queue s') = n + 1
             \<and> idx s < p
             \<and> idx s' = (if idx s + 1 < n then idx s + 1 else idx s)
             \<and> (n = 20 \<and> idx s = 0 \<longrightarrow> 10 \<le> p \<and> p \<le> 14 \<and> length (queue s') = 21))"
proof -
  define n where "n = length (queue s)"
  define j where "j = nat \<lfloor>u * 5\<rfloor>"
  define p where "p = min n (idx s + max 10 (nat \<lfloor>real n * 0.3\<rfloor>) + j)"
  have p: "p = min (length (queue s))
                  (idx s + max 10 (nat \<lfloor>real (length (queue s)) * 0.3\<rfloor>) + nat \<lfloor>u * 5\<rfloor>)"
    by (simp add: p_def n_def j_def)
  note mu = markUnknown_queue [OF rep cur u p]
  have "\<lfloor>u * 5\<rfloor> \<le> 4" using jitter_range [OF u] by blast
  then have j4: "j \<le> 4" unfolding j_def by linarith
  then have jset: "j \<in> {0, 1, 2, 3, 4}" by auto
  have len: "length (queue (markUnknown u s s)) = n + 1"
    using mu(1) mu(3) by (simp add: n_def)
  have fl: "nat \<lfloor>real (20::nat) * 0.3\<rfloor> = 6" by simp
  have ex: "n = 20 \<and> idx s = 0 \<longrightarrow> 10 \<le> p \<and> p \<le> 14"
    using j4 fl by (auto simp: p_def)
  show ?thesis
    unfolding Let_def
    using jset mu(1) len mu(2) mu(4) ex by (simp add: n_def j_def p_def)
qed

lemma markUnknown_reinsertion_example:
  "autoRepeatUnknown exampleTwenty \<and> 0 \<le> currentIndex exampleTwenty
   \<and> currentIndex exampleTwenty = 5
   \<and> (0::real) \<le> 1 / 2 \<and> (1 / 2 :: real) < 1
   \<and> length (queue exampleTwenty) = 20 \<and> idx exampleTwenty = 0
   \<and> queue (markUnknown (1 / 2) exampleTwenty exampleTwenty) =
        [5, 0, 1, 2, 3, 4, 6, 7, 8, 9, 10, 11, 5, 12, 13, 14, 15, 16, 17, 18, 19]
   \<and> length (queue (markUnknown (1 / 2) exampleTwenty exampleTwenty)) = 21
   \<and> idx (markUnknown (1 / 2) exampleTwenty exampleTwenty) = 1"
proof -
  have h: "autoRepeatUnknown exampleTwenty" "0 \<le> currentIndex exampleTwenty"
    "(0::real) \<le> 1 / 2" "(1 / 2 :: real) < 1"
    by (simp_all add: exampleTwenty_def initialState_def currentIndex_def)
  show ?thesis
    using h markUnknown_reinsertion [OF h]
    by (simp add: exampleTwenty_def initialState_def currentIndex_def Let_def)
qed

text \<open>
  C1 on the keyboard path. Two cards are loaded, the repeat option is switched off,
  the session is started and the repeat option is switched on again. The switch
  changes none of the listener's dependencies \<open>started\<close>, \<open>idx\<close>, \<open>queue\<close>, so the
  listener stays the closure of the render in which the option was off. In this
  state the option is on and card \<open>0\<close> is the current card, yet the key \<open>2\<close> marks
  the card unknown and advances without inserting anything: the queue is still
  \<open>[0, 1]\<close>. The button pressed in the same state gives \<open>[0, 1, 0]\<close>.
\<close>

theorem keyboard_markUnknown_no_reinsertion:
  "autoRepeatUnknown (live (click autoRepeatSwitch exampleRepeatOff))
   \<and> currentIndex (live (click autoRepeatSwitch exampleRepeatOff)) = 0
   \<and> queue (live (click autoRepeatSwitch exampleRepeatOff)) = [0, 1]
   \<and> \<not> autoRepeatUnknown (keyRender (click autoRepeatSwitch exampleRepeatOff))
   \<and> queue (live (keydown digit2 0 (click autoRepeatSwitch exampleRepeatOff))) = [0, 1]
   \<and> unknown (live (keydown digit2 0 (click autoRepeatSwitch exampleRepeatOff))) = [0]
   \<and> idx (live (keydown digit2 0 (click autoRepeatSwitch exampleRepeatOff))) = 1
   \<and> queue (live (press UnknownButton 0 (click autoRepeatSwitch exampleRepeatOff)))
       = [0, 1, 0]"
  by (simp add: trace_defs app_defs)

section \<open>Marking a card known (C6)\<close>

lemma markKnown_fresh:
  assumes "0 \<le> currentIndex s"
  shows "markKnown s s =
     next s (s\<lparr>known := (if currentIndex s \<in> set (known s) then known s
                            else known s @ [currentIndex s]),
               unknown := (if autoRepeatUnknown s
                           then filter (\<lambda>x. x \<noteq> currentIndex s) (unknown s)
                           else unknown s)\<rparr>)"
  using assms by (simp add: markKnown_def Let_def)

lemma next_idx_flipped:
  "idx (next c s) = (if int (idx c) < int (length (queue c)) - 1 then idx s + 1 else idx s)"
  "flipped (next c s) = (if int (idx c) < int (length (queue c)) - 1 then False else flipped s)"
  by (simp_all add: next_def)

text \<open>
  The button. With a current card, \<open>markKnown\<close> run from the current render puts
  \<open>currentIndex\<close> into \<open>known\<close>, removes it from \<open>unknown\<close> when the repeat option
  is on (and leaves \<open>unknown\<close> alone when it is off), leaves the queue alone and
  moves the cursor as \<open>next\<close> does. In particular, with the repeat option on and
  the cursor not at the last position: after \<open>markUnknown\<close>, one step back brings
  the same card up again, and \<open>markKnown\<close> then leaves its index in \<open>known\<close> and
  not in \<open>unknown\<close>.
\<close>

lemma markKnown_effect:
  assumes cur: "0 \<le> currentIndex s"
  shows "set (known (markKnown s s)) = insert (currentIndex s) (set (known s))
     \<and> (autoRepeatUnknown s \<longrightarrow>
           unknown (markKnown s s) = filter (\<lambda>x. x \<noteq> currentIndex s) (unknown s)
           \<and> currentIndex s \<notin> set (unknown (markKnown s s)))
     \<and> (\<not> autoRepeatUnknown s \<longrightarrow> unknown (markKnown s s) = unknown s)
     \<and> queue (markKnown s s) = queue s
     \<and> idx (markKnown s s) = idx (next s s)
     \<and> flipped (markKnown s s) = flipped (next s s)
     \<and> (autoRepeatUnknown s \<and> 0 \<le> u \<and> u < 1 \<and> int (idx s) < int (length (queue s)) - 1 \<longrightarrow>
          (let s1 = markUnknown u s s; s2 = prev s1 s1; s3 = markKnown s2 s2
           in currentIndex s \<in> set (unknown s1)
              \<and> idx s1 = idx s + 1 \<and> idx s2 = idx s \<and> currentIndex s2 = currentIndex s
              \<and> currentIndex s \<in> set (known s3)
              \<and> currentIndex s \<notin> set (unknown s3)))"
proof -
  define i where "i = currentIndex s"
  have mk: "set (known (markKnown s s)) = insert i (set (known s))"
    "autoRepeatUnknown s \<longrightarrow>
           unknown (markKnown s s) = filter (\<lambda>x. x \<noteq> i) (unknown s)
           \<and> i \<notin> set (unknown (markKnown s s))"
    "\<not> autoRepeatUnknown s \<longrightarrow> unknown (markKnown s s) = unknown s"
    "queue (markKnown s s) = queue s"
    "idx (markKnown s s) = idx (next s s)"
    "flipped (markKnown s s) = flipped (next s s)"
    unfolding markKnown_fresh [OF cur] i_def
    by (auto simp: next_fields next_idx_flipped)
  have sc: "(let s1 = markUnknown u s s; s2 = prev s1 s1; s3 = markKnown s2 s2
           in i \<in> set (unknown s1)
              \<and> idx s1 = idx s + 1 \<and> idx s2 = idx s \<and> currentIndex s2 = i
              \<and> i \<in> set (known s3)
              \<and> i \<notin> set (unknown s3))"
    if rep: "autoRepeatUnknown s" and u: "0 \<le> u" "u < 1"
      and nl: "int (idx s) < int (length (queue s)) - 1"
  proof -
    define s1 where "s1 = markUnknown u s s"
    define s2 where "s2 = prev s1 s1"
    define s3 where "s3 = markKnown s2 s2"
    define p where "p = min (length (queue s))
        (idx s + max 10 (nat \<lfloor>real (length (queue s)) * 0.3\<rfloor>) + nat \<lfloor>u * 5\<rfloor>)"
    note mu = markUnknown_queue [OF rep cur u p_def]
    have q1: "queue s1 = take p (queue s) @ [i] @ drop p (queue s)"
      using mu(1) by (simp add: s1_def i_def)
    have ix1: "idx s1 = idx s + 1"
      using mu(4) nl by (simp add: s1_def)
    have un1: "i \<in> set (unknown s1)"
      using cur by (auto simp: s1_def markUnknown_def Let_def next_fields i_def)
    have rep1: "autoRepeatUnknown s1"
      using cur rep by (auto simp: s1_def markUnknown_def Let_def next_fields)
    have ix2: "idx s2 = idx s" by (simp add: s2_def prev_def ix1)
    have q2: "queue s2 = queue s1" by (simp add: s2_def prev_fields)
    have rep2: "autoRepeatUnknown s2" using rep1 by (simp add: s2_def prev_fields)
    have lt: "idx s < length (queue s)" using nl by simp
    have "queue s2 ! idx s = queue s ! idx s"
      using mu(2) mu(3) by (simp add: q2 q1 nth_append)
    then have ci2: "currentIndex s2 = i"
      using lt mu(3) by (simp add: currentIndex_def ix2 q2 q1 i_def)
    have cur2: "0 \<le> currentIndex s2" using ci2 cur by (simp add: i_def)
    have k3: "i \<in> set (known s3)" and u3: "i \<notin> set (unknown s3)"
      unfolding s3_def markKnown_fresh [OF cur2] using rep2 ci2
      by (auto simp: next_fields)
    show ?thesis
      unfolding Let_def
      using un1 ix1 ix2 ci2 k3 u3 by (simp add: s1_def s2_def s3_def)
  qed
  show ?thesis
    using mk sc unfolding i_def by blast
qed

lemma markKnown_effect_example:
  "0 \<le> currentIndex exampleFive \<and> currentIndex exampleFive = 3
   \<and> autoRepeatUnknown exampleFive \<and> (0::real) \<le> 0 \<and> (0::real) < 1
   \<and> int (idx exampleFive) < int (length (queue exampleFive)) - 1
   \<and> known (markKnown exampleFive exampleFive) = [3]
   \<and> (let s1 = markUnknown 0 exampleFive exampleFive; s2 = prev s1 s1; s3 = markKnown s2 s2
       in unknown s1 = [3] \<and> queue s1 = [4, 2, 3, 0, 1, 3] \<and> idx s2 = 2
          \<and> known s3 = [3] \<and> unknown s3 = [])"
  using markKnown_effect [of exampleFive 0]
  by (simp add: exampleFive_def initialState_def currentIndex_def markKnown_def
      markUnknown_def prev_def next_def Let_def insertAt_def minGap_def splice_insert_def)

text \<open>
  C6 on the keyboard path. In the started session with the repeat option off, the
  key \<open>2\<close> marks card \<open>0\<close> unknown and \<open>ArrowLeft\<close> goes back to it. The repeat
  option is then switched on, which leaves the listener the closure of the render
  in which it was off. The key \<open>1\<close> puts \<open>0\<close> into \<open>known\<close> and, the option being
  on, should take it out of \<open>unknown\<close>; it stays there. The button pressed in the
  same state empties \<open>unknown\<close>.
\<close>

theorem keyboard_markKnown_keeps_unknown:
  "unknown (live (keydown digit2 0 exampleRepeatOff)) = [0]
   \<and> idx (live (keydown digit2 0 exampleRepeatOff)) = 1
   \<and> idx (live (keydown arrowLeft 0 (keydown digit2 0 exampleRepeatOff))) = 0
   \<and> autoRepeatUnknown
        (live (click autoRepeatSwitch (keydown arrowLeft 0 (keydown digit2 0 exampleRepeatOff))))
   \<and> currentIndex
        (live (click autoRepeatSwitch (keydown arrowLeft 0 (keydown digit2 0 exampleRepeatOff))))
       = 0
   \<and> known (live (keydown digit1 0
        (click autoRepeatSwitch (keydown arrowLeft 0 (keydown digit2 0 exampleRepeatOff)))))
       = [0]
   \<and> unknown (live (keydown digit1 0
        (click autoRepeatSwitch (keydown arrowLeft 0 (keydown digit2 0 exampleRepeatOff)))))
       = [0]
   \<and> unknown (live (press KnownButton 0
        (click autoRepeatSwitch (keydown arrowLeft 0 (keydown digit2 0 exampleRepeatOff)))))
       = []"
  by (simp add: trace_defs app_defs)

section \<open>Session reset (C2)\<close>

lemma random_index_le:
  assumes "0 \<le> r" "r < 1"
  shows "nat \<lfloor>r * real (i + 1)\<rfloor> \<le> i"
proof -
  have "r * real (i + 1) < real (i + 1)" using assms by simp
  then have "\<lfloor>r * real (i + 1)\<rfloor> < int (i + 1)" by (simp add: floor_less_iff)
  then show ?thesis by linarith
qed

text \<open>Every round of the loop swaps two positions inside the array.\<close>

lemma mset_shuffle_loop:
  assumes rnd: "\<forall>k. 0 \<le> rnd k \<and> rnd k < 1"
  shows "n < length xs \<or> n = 0 \<Longrightarrow> mset (shuffle_loop rnd k n xs) = mset xs"
proof (induction n arbitrary: k xs)
  case 0
  then show ?case by simp
next
  case (Suc n)
  define j where "j = nat \<lfloor>rnd k * real (Suc n + 1)\<rfloor>"
  have i: "Suc n < length xs" using Suc.prems by simp
  have "j \<le> Suc n" unfolding j_def using rnd by (intro random_index_le) auto
  then have j: "j < length xs" using i by simp
  have sw: "mset (xs[Suc n := xs ! j, j := xs ! Suc n]) = mset xs"
    using mset_swap [OF j i] .
  have "mset (shuffle_loop rnd (Suc k) n (xs[Suc n := xs ! j, j := xs ! Suc n]))
        = mset (xs[Suc n := xs ! j, j := xs ! Suc n])"
    using i by (intro Suc.IH) simp
  then show ?case using sw by (simp add: Let_def j_def)
qed

lemma mset_shuffleArray:
  assumes "\<forall>k. 0 \<le> rnd k \<and> rnd k < 1"
  shows "mset (shuffleArray rnd arr) = mset arr"
  unfolding shuffleArray_def
  by (rule mset_shuffle_loop [OF assms]) (cases arr; simp)

lemma resetSession_queue:
  "queue (resetSession rnd n c s) =
     (if shuffle c then shuffleArray rnd (map int [0..<n]) else map int [0..<n])"
  by (simp add: resetSession_def Let_def)

lemma resetSession_queue_mset:
  assumes "\<forall>k. 0 \<le> rnd k \<and> rnd k < 1"
  shows "mset (queue (resetSession rnd n c s)) = mset (map int [0..<n])"
  using mset_shuffleArray [OF assms, of "map int [0..<n]"]
  by (simp only: resetSession_queue if_split) auto

text \<open>
  For every \<open>n\<close>, every closure and every outcome of the random source (each draw
  in \<open>[0, 1)\<close>), the queue built by \<open>resetSession(n)\<close> is a permutation of
  \<open>0..n-1\<close>: it has the same multiset of entries as \<open>[0, ..., n-1]\<close>, so every
  index occurs exactly once and nothing else occurs. It is \<open>[0, ..., n-1]\<close> itself
  when the shuffle flag the call reads is off. The cursor is 0, \<open>flipped\<close> and
  \<open>started\<close> are false, \<open>known\<close> and \<open>unknown\<close> are empty.
\<close>

lemma resetSession_permutation:
  assumes rnd: "\<forall>k. 0 \<le> rnd k \<and> rnd k < 1"
  shows "(let r = resetSession rnd n c s
          in mset (queue r) = mset (map int [0..<n])
             \<and> (\<forall>i. count_list (queue r) i = (if 0 \<le> i \<and> i < int n then 1 else 0))
             \<and> length (queue r) = n \<and> distinct (queue r)
             \<and> (\<not> shuffle c \<longrightarrow> queue r = map int [0..<n])
             \<and> idx r = 0 \<and> \<not> flipped r \<and> known r = [] \<and> unknown r = [] \<and> \<not> started r)"
proof -
  define r where "r = resetSession rnd n c s"
  have ms: "mset (queue r) = mset (map int [0..<n])"
    unfolding r_def by (rule resetSession_queue_mset [OF rnd])
  have dist: "distinct (map int [0..<n])" by (simp add: distinct_map)
  then have d: "distinct (queue r)" using ms by (metis mset_eq_imp_distinct_iff)
  have len: "length (queue r) = n"
    using mset_eq_length [OF ms] by simp
  have st: "set (queue r) = int ` {0..<n}"
    using mset_eq_setD [OF ms] by simp
  have cnt: "count_list (queue r) i = (if 0 \<le> i \<and> i < int n then 1 else 0)" for i
  proof -
    have "i \<in> set (queue r) \<longleftrightarrow> 0 \<le> i \<and> i < int n"
      unfolding st by (auto simp: image_iff intro: bexI [of _ "nat i"])
    moreover have "count (mset (queue r)) i = (if i \<in> set (queue r) then 1 else 0)"
      using d unfolding distinct_count_atmost_1 by blast
    ultimately show ?thesis by (simp only: count_mset)
  qed
  have rest: "(\<not> shuffle c \<longrightarrow> queue r = map int [0..<n])
             \<and> idx r = 0 \<and> \<not> flipped r \<and> known r = [] \<and> unknown r = [] \<and> \<not> started r"
    by (simp add: r_def resetSession_def Let_def)
  show ?thesis
    unfolding Let_def r_def [symmetric] using ms cnt len d rest by blast
qed

lemma resetSession_permutation_example:
  "0 \<le> halves 0 \<and> halves 0 < 1
   \<and> shuffle initialState
   \<and> queue (resetSession halves 4 initialState exampleMiddle) = [0, 3, 1, 2]
   \<and> mset (queue (resetSession halves 4 initialState exampleMiddle)) = mset (map int [0..<4])
   \<and> idx (resetSession halves 4 initialState exampleMiddle) = 0
   \<and> \<not> started (resetSession halves 4 initialState exampleMiddle)
   \<and> \<not> shuffle (initialState\<lparr>shuffle := False\<rparr>)
   \<and> queue (resetSession halves 4 (initialState\<lparr>shuffle := False\<rparr>) exampleMiddle)
       = [0, 1, 2, 3]"
proof -
  have h: "\<forall>k. 0 \<le> halves k \<and> halves k < 1" by (simp add: halves_def)
  have q: "queue (resetSession halves 4 initialState exampleMiddle) = [0, 3, 1, 2]"
    by (simp add: resetSession_def initialState_def shuffleArray_def halves_def
        numeral_eq_Suc upt_rec Let_def)
  have u: "map int [0..<4] = [0, 1, 2, 3]"
    by (simp add: numeral_eq_Suc upt_rec)
  show ?thesis
    using h q u resetSession_permutation [OF h, of 4 initialState exampleMiddle]
      resetSession_permutation [OF h, of 4 "initialState\<lparr>shuffle := False\<rparr>" exampleMiddle]
    by (simp add: Let_def initialState_def)
qed

text \<open>
  C2 on the import path. \<open>handleFiles\<close> is the closure of the first render, in
  which \<open>shuffle\<close> is true, and the \<open>resetSession\<close> it calls reads that value. A
  file of three rows is loaded, shuffle is switched off on the upload card and the
  file is loaded again, every random draw being \<open>0\<close>: the session is reset with
  the queue \<open>[1, 2, 0]\<close> although shuffle is off.
\<close>

theorem import_ignores_shuffle_off:
  "\<not> shuffle (live exampleShuffleOff)
   \<and> \<not> shuffle (live (fileParsed exampleThreeRows zeros exampleShuffleOff))
   \<and> queue (live (fileParsed exampleThreeRows zeros exampleShuffleOff)) = [1, 2, 0]
   \<and> idx (live (fileParsed exampleThreeRows zeros exampleShuffleOff)) = 0
   \<and> known (live (fileParsed exampleThreeRows zeros exampleShuffleOff)) = []"
  by (simp add: trace_defs app_defs numeral_eq_Suc upt_rec)

section \<open>Duplicates in the classification lists (C7)\<close>

text \<open>
  A handler of the latest render keeps both lists free of duplicates: its membership
  tests read the lists the updates are applied to.
\<close>

lemma markKnown_click_distinct:
  assumes "distinct (known s)" "distinct (unknown s)"
  shows "distinct (known (markKnown s s)) \<and> distinct (unknown (markKnown s s))"
  using assms by (auto simp: markKnown_def Let_def next_fields)

lemma markUnknown_click_distinct:
  assumes "distinct (known s)" "distinct (unknown s)"
  shows "distinct (known (markUnknown u s s)) \<and> distinct (unknown (markUnknown u s s))"
  using assms by (auto simp: markUnknown_def Let_def next_fields)

lemma onKey_fresh_distinct:
  assumes "distinct (known s)" "distinct (unknown s)"
  shows "distinct (known (onKey e u s s)) \<and> distinct (unknown (onKey e u s s))"
  using assms
  by (auto simp: onKey_def markKnown_def markUnknown_def toggleFlip_def Let_def
      next_fields prev_fields currentIndex_def next_def prev_def)

text \<open>
  C7 on the keyboard path. One card is loaded and the session started. The key \<open>1\<close>
  puts index \<open>0\<close> into \<open>known\<close>; the cursor cannot advance, so none of the
  listener's dependencies \<open>started\<close>, \<open>idx\<close>, \<open>queue\<close> changes and the listener
  stays the closure of the render in which \<open>known\<close> was empty. The same key again
  passes the membership test of that closure and appends \<open>0\<close> a second time. Two
  clicks on the button, whose handler is re-created at every render, add it once.
\<close>

theorem keyboard_markKnown_twice:
  "known (live exampleOneCard) = []
   \<and> currentIndex (live exampleOneCard) = 0
   \<and> known (live (keydown digit1 0 exampleOneCard)) = [0]
   \<and> known (keyRender (keydown digit1 0 exampleOneCard)) = []
   \<and> known (live (keydown digit1 0 (keydown digit1 0 exampleOneCard))) = [0, 0]
   \<and> \<not> distinct (known (live (keydown digit1 0 (keydown digit1 0 exampleOneCard))))
   \<and> known (live (click markKnown (click markKnown exampleOneCard))) = [0]"
  by (simp add: exampleOneCard_def app_defs)

section \<open>The shuffle switches (C8)\<close>

text \<open>The switches for \<open>autoRepeatUnknown\<close> and \<open>reverse\<close> leave the session alone.\<close>

lemma other_switches_keep_session:
  "queue (autoRepeatSwitch c s) = queue s \<and> idx (autoRepeatSwitch c s) = idx s
   \<and> known (autoRepeatSwitch c s) = known s \<and> unknown (autoRepeatSwitch c s) = unknown s
   \<and> started (autoRepeatSwitch c s) = started s \<and> flipped (autoRepeatSwitch c s) = flipped s
   \<and> queue (reverseSwitch c s) = queue s \<and> idx (reverseSwitch c s) = idx s
   \<and> known (reverseSwitch c s) = known s \<and> unknown (reverseSwitch c s) = unknown s
   \<and> started (reverseSwitch c s) = started s \<and> flipped (reverseSwitch c s) = flipped s"
  by (simp add: autoRepeatSwitch_def reverseSwitch_def)

text \<open>
  The shuffle switch of the session options resets the session, with the queue
  ordered by the shuffle value of before the click.
\<close>

lemma sessionShuffleSwitch_queue:
  "queue (sessionShuffleSwitch rnd s s) =
     (if shuffle s then shuffleArray rnd (map int [0..<length (rawRows s)])
      else map int [0..<length (rawRows s)])
   \<and> shuffle (sessionShuffleSwitch rnd s s) = (\<not> shuffle s)
   \<and> idx (sessionShuffleSwitch rnd s s) = 0
   \<and> known (sessionShuffleSwitch rnd s s) = [] \<and> unknown (sessionShuffleSwitch rnd s s) = []"
  by (simp add: sessionShuffleSwitch_def resetSession_def Let_def)

text \<open>
  C8 on two cards, shuffle on at first. Switching shuffle off in the session options
  (the random draw being \<open>0\<close>) leaves the queue \<open>[1, 0]\<close> with shuffle off;
  starting again and switching it on leaves the identity order \<open>[0, 1]\<close> with
  shuffle on. The
  shuffle switch of the upload card, clicked after the first card was marked known,
  changes the flag and nothing else: the cursor stays at 1 and \<open>known\<close> stays
  \<open>[0]\<close>.
\<close>

theorem shuffle_switch_stale:
  "shuffle (live exampleTwoCards)
   \<and> \<not> shuffle (live (click (sessionShuffleSwitch zeros) exampleTwoCards))
   \<and> queue (live (click (sessionShuffleSwitch zeros) exampleTwoCards)) = [1, 0]
   \<and> shuffle (live (click (sessionShuffleSwitch zeros) (click startSession
                      (click (sessionShuffleSwitch zeros) exampleTwoCards))))
   \<and> queue (live (click (sessionShuffleSwitch zeros) (click startSession
                     (click (sessionShuffleSwitch zeros) exampleTwoCards)))) = [0, 1]
   \<and> known (live (click markKnown exampleTwoCards)) = [0]
   \<and> idx (live (click markKnown exampleTwoCards)) = 1
   \<and> known (live (click uploadShuffleSwitch (click markKnown exampleTwoCards))) = [0]
   \<and> idx (live (click uploadShuffleSwitch (click markKnown exampleTwoCards))) = 1
   \<and> \<not> shuffle (live (click uploadShuffleSwitch (click markKnown exampleTwoCards)))"
  by (simp add: exampleTwoCards_def app_defs sessionShuffleSwitch_def uploadShuffleSwitch_def)

section \<open>Text formatting\<close>

lemma has_marker_Cons: "has_marker t \<Longrightarrow> has_marker (ch # t)"
  by (cases t) auto

lemma option_letter_not_newline: "is_option_letter ch \<Longrightarrow> ch \<noteq> CHR 0x0A"
  by (auto simp: is_option_letter_def)

lemma option_letter_not_space: "is_option_letter ch \<Longrightarrow> \<not> is_space ch"
  by (auto simp: is_option_letter_def is_space_def)

lemma formatText_no_marker: "\<not> has_marker t \<Longrightarrow> formatText t = t"
  by (induction t rule: formatText.induct) auto

lemma formatText_marker_changes: "has_marker t \<Longrightarrow> formatText t \<noteq> t"
  by (induction t rule: formatText.induct) (auto dest: option_letter_not_newline)

lemma formatText_fixed_point: "formatText t = t \<longleftrightarrow> \<not> has_marker t"
  using formatText_no_marker formatText_marker_changes by blast

lemma formatText_keeps_marker: "has_marker t \<Longrightarrow> has_marker (formatText t)"
  by (induction t rule: formatText.induct) (auto intro: has_marker_Cons)

lemma formatText_not_idempotent:
  "has_marker t \<Longrightarrow> formatText (formatText t) \<noteq> formatText t"
  using formatText_keeps_marker formatText_marker_changes by blast

lemma dropWhile_keeps_text:
  "(\<exists>x \<in> set (dropWhile P t). \<not> P x) \<longleftrightarrow> (\<exists>x \<in> set t. \<not> P x)"
  by (induction t) auto

lemma trim_keeps_text:
  "(\<exists>ch \<in> set (trim t). \<not> is_space ch) \<longleftrightarrow> (\<exists>ch \<in> set t. \<not> is_space ch)"
  by (simp add: trim_def dropWhile_keeps_text)

lemma trim_nonempty_iff: "trim t \<noteq> [] \<longleftrightarrow> (\<exists>ch \<in> set t. \<not> is_space ch)"
proof -
  have "trim t = [] \<longleftrightarrow> \<not> (\<exists>x \<in> set (dropWhile is_space t). \<not> is_space x)"
    by (simp add: trim_def dropWhile_eq_Nil_conv)
  then show ?thesis by (simp only: dropWhile_keeps_text) blast
qed

lemma formatText_keeps_text:
  "\<exists>ch \<in> set t. \<not> is_space ch \<Longrightarrow> \<exists>ch \<in> set (formatText t). \<not> is_space ch"
  by (induction t rule: formatText.induct) (auto dest: option_letter_not_space)

lemma trim_formatText_nonempty:
  assumes "trim t \<noteq> []"
  shows "trim (formatText (trim t)) \<noteq> []"
proof -
  have "\<exists>ch \<in> set t. \<not> is_space ch" using assms by (simp only: trim_nonempty_iff)
  then have "\<exists>ch \<in> set (trim t). \<not> is_space ch" by (simp only: trim_keeps_text)
  then have "\<exists>ch \<in> set (formatText (trim t)). \<not> is_space ch"
    by (rule formatText_keeps_text)
  then show ?thesis by (simp only: trim_nonempty_iff)
qed

section \<open>Record normalisation (C9)\<close>

lemma positional_question: "x \<in> set (positional q0 a0) \<Longrightarrow> trim (q x) \<noteq> []"
  by (cases q0; cases a0)
     (auto simp: positional_def trim_formatText_nonempty split: if_split_asm)

lemma normalizeRecord_Row:
  "normalizeRecord (Row fs) = positional (at_index fs 0) (at_index fs 1)"
  by (simp add: normalizeRecord_def positional_def)

lemma normalizeRecord_Obj_fallback:
  "questionField kvs = None \<or> answerField kvs = None \<Longrightarrow>
   normalizeRecord (Obj kvs) =
     (if length kvs \<ge> 2
      then positional (property kvs (map fst kvs ! 0)) (property kvs (map fst kvs ! 1))
      else [])"
  by (cases "questionField kvs"; cases "answerField kvs")
     (simp_all add: normalizeRecord_def positional_def Let_def)

lemma normalizeRecord_question:
  "x \<in> set (normalizeRecord r) \<Longrightarrow> \<not> named_fields r \<Longrightarrow> trim (q x) \<noteq> []"
proof (cases r)
  case (Row fs)
  assume "x \<in> set (normalizeRecord r)"
  then show ?thesis
    unfolding Row normalizeRecord_Row by (rule positional_question)
next
  case (Obj kvs)
  assume x: "x \<in> set (normalizeRecord r)" and "\<not> named_fields r"
  then have "questionField kvs = None \<or> answerField kvs = None"
    by (simp add: named_fields_def Obj)
  then have "x \<in> set (if length kvs \<ge> 2
      then positional (property kvs (map fst kvs ! 0)) (property kvs (map fst kvs ! 1))
      else [])"
    using x unfolding Obj by (simp only: normalizeRecord_Obj_fallback)
  then show ?thesis
    by (cases "length kvs \<ge> 2") (simp_all add: positional_question)
qed (simp_all add: normalizeRecord_def)

text \<open>
  C9, as stated, lets only records with a non-blank question and a non-blank answer
  into the deck. A row read through its first two keys is kept with its blank
  answer, and a row with a named but blank question is kept with the empty question.
\<close>

theorem normalizeRecords_keeps_blank_fields:
  "normalizeRecords exampleRecords = [\<lparr>q = ''Q'', a = ''''\<rparr>, \<lparr>q = '''', a = ''x''\<rparr>]
   \<and> trim (a (normalizeRecords exampleRecords ! 0)) = []
   \<and> trim (q (normalizeRecords exampleRecords ! 1)) = []"
  by (simp add: exampleRecords_def normalizeRecords_def normalizeRecord_def at_index_def
      questionField_def answerField_def property_def nullish_def trim_def is_space_def)

lemma positional_iff:
  "x \<in> set (positional q0 a0) \<longleftrightarrow>
     (\<exists>q1 a1. q0 = Some q1 \<and> a0 = Some a1 \<and> trim q1 \<noteq> []
        \<and> x = \<lparr>q = formatText (trim q1), a = formatText (trim a1)\<rparr>)"
  by (cases q0; cases a0) (auto simp: positional_def)

lemma length_positional: "length (positional q0 a0) \<le> 1"
  by (cases q0; cases a0) (simp_all add: positional_def)

text \<open>
  C9, amended. A record given as an array, or an object read through its first two
  keys, enters the deck exactly when its question and its answer are both present
  and the question is not blank after trimming; it then enters once, with both
  fields trimmed and formatted, whatever the answer is. Falsy records and other
  primitives are dropped, and no record enters more than once. So every entry of
  the deck pushed for such a record has a question whose trimmed text is
  non-empty: an entry of the deck with a blank question was pushed for an object
  with a named question and answer.
\<close>

theorem normalizeRecords_positional:
  "(\<forall>fs x. x \<in> set (normalizeRecord (Row fs)) \<longleftrightarrow>
       (\<exists>q0 a0. at_index fs 0 = Some q0 \<and> at_index fs 1 = Some a0 \<and> trim q0 \<noteq> []
          \<and> x = \<lparr>q = formatText (trim q0), a = formatText (trim a0)\<rparr>))
   \<and> (\<forall>kvs x. \<not> named_fields (Obj kvs) \<longrightarrow>
       (x \<in> set (normalizeRecord (Obj kvs)) \<longleftrightarrow>
          length kvs \<ge> 2
          \<and> (\<exists>q0 a0. property kvs (map fst kvs ! 0) = Some q0
                \<and> property kvs (map fst kvs ! 1) = Some a0 \<and> trim q0 \<noteq> []
                \<and> x = \<lparr>q = formatText (trim q0), a = formatText (trim a0)\<rparr>)))
   \<and> normalizeRecord Falsy = [] \<and> normalizeRecord Prim = []
   \<and> (\<forall>r. length (normalizeRecord r) \<le> 1)
   \<and> (\<forall>r x. x \<in> set (normalizeRecord r) \<and> \<not> named_fields r \<longrightarrow> trim (q x) \<noteq> [])
   \<and> (\<forall>x \<in> set (normalizeRecords records).
        trim (q x) \<noteq> [] \<or> (\<exists>r \<in> set records. named_fields r \<and> x \<in> set (normalizeRecord r)))"
proof -
  have row: "x \<in> set (normalizeRecord (Row fs)) \<longleftrightarrow>
       (\<exists>q0 a0. at_index fs 0 = Some q0 \<and> at_index fs 1 = Some a0 \<and> trim q0 \<noteq> []
          \<and> x = \<lparr>q = formatText (trim q0), a = formatText (trim a0)\<rparr>)" for fs x
    by (simp only: normalizeRecord_Row positional_iff)
  have obj: "x \<in> set (normalizeRecord (Obj kvs)) \<longleftrightarrow>
          length kvs \<ge> 2
          \<and> (\<exists>q0 a0. property kvs (map fst kvs ! 0) = Some q0
                \<and> property kvs (map fst kvs ! 1) = Some a0 \<and> trim q0 \<noteq> []
                \<and> x = \<lparr>q = formatText (trim q0), a = formatText (trim a0)\<rparr>)"
    if "\<not> named_fields (Obj kvs)" for kvs x
  proof -
    have "questionField kvs = None \<or> answerField kvs = None"
      using that by (simp add: named_fields_def)
    then show ?thesis
      by (cases "length kvs \<ge> 2")
         (simp_all only: normalizeRecord_Obj_fallback positional_iff if_True if_False
            list.set empty_iff simp_thms)
  qed
  have triv: "normalizeRecord Falsy = []" "normalizeRecord Prim = []"
    by (simp_all add: normalizeRecord_def)
  have one: "length (normalizeRecord r) \<le> 1" for r
  proof (cases r)
    case (Row fs)
    then show ?thesis by (simp only: normalizeRecord_Row length_positional)
  next
    case (Obj kvs)
    show ?thesis
    proof (cases "questionField kvs = None \<or> answerField kvs = None")
      case True
      then show ?thesis
        unfolding Obj
        by (cases "length kvs \<ge> 2")
           (simp_all only: normalizeRecord_Obj_fallback length_positional if_True if_False
              list.size)
    next
      case False
      then show ?thesis unfolding Obj by (auto simp: normalizeRecord_def)
    qed
  qed (simp_all add: normalizeRecord_def)
  have qn: "trim (q x) \<noteq> []" if "x \<in> set (normalizeRecord r) \<and> \<not> named_fields r" for r x
    using that normalizeRecord_question [of x r] by blast
  have all: "trim (q x) \<noteq> []
      \<or> (\<exists>r \<in> set records. named_fields r \<and> x \<in> set (normalizeRecord r))"
    if "x \<in> set (normalizeRecords records)" for x
  proof -
    from that obtain r where r: "r \<in> set records" "x \<in> set (normalizeRecord r)"
      by (auto simp: normalizeRecords_def)
    show ?thesis
      using r normalizeRecord_question [of x r] by blast
  qed
  show ?thesis
    using row obj triv one qn all by blast
qed

theorem normalizeRecords_positional_witness:
  "normalizeRecords exampleRows = [\<lparr>q = ''Q'', a = ''A''\<rparr>, \<lparr>q = ''Q3'', a = []\<rparr>]
   \<and> trim (q (normalizeRecords exampleRows ! 0)) = ''Q''
   \<and> trim (q (normalizeRecords exampleRows ! 1)) = ''Q3''
   \<and> normalizeRecord (Obj [(''front'', Some '' ''), (''back'', Some ''A'')]) = []
   \<and> normalizeRecord (Obj [(''front'', Some ''Q4''), (''back'', None)]) = []
   \<and> normalizeRecord (Row [Some ''Q5'']) = []
   \<and> normalizeRecord (Row [Some ''Q6'', Some ''A6'']) = [\<lparr>q = ''Q6'', a = ''A6''\<rparr>]"
  using normalizeRecords_positional [of exampleRows]
  by (simp add: exampleRows_def normalizeRecords_def normalizeRecord_def at_index_def
      trim_def is_space_def is_option_letter_def named_fields_def questionField_def
      answerField_def property_def nullish_def)

section \<open>Saving and loading (C10)\<close>

lemma reformat_row_fixed:
  "\<lparr>q = formatText (q row), a = formatText (a row)\<rparr> = row
   \<longleftrightarrow> formatText (q row) = q row \<and> formatText (a row) = a row"
  by (cases row) simp

lemma rawRows_loadStudySet:
  "rawRows (loadStudySet studySet rnd c s) =
     map (\<lambda>x. \<lparr>q = formatText (question x), a = formatText (answer x)\<rparr>) (questions studySet)"
  by (simp add: loadStudySet_def resetSession_def Let_def)

text \<open>
  C10. When \<open>saveStudySet\<close> sends an entry and that entry is loaded again, the rows
  are those of the saved deck with \<open>formatText\<close> applied once more to each field.
  They are the saved rows exactly when every field is a fixed point of
  \<open>formatText\<close>, that is, when no field contains an option marker. On every text
  that contains one, \<open>formatText\<close> is not idempotent; on \<open>A.\<close> each pass adds another
  line feed.
\<close>

theorem save_load_reformats:
  assumes "saveStudySet c = Some entry"
  shows "rawRows (loadStudySet entry rnd c' s) =
           map (\<lambda>row. \<lparr>q = formatText (q row), a = formatText (a row)\<rparr>) (rawRows c)
     \<and> (rawRows (loadStudySet entry rnd c' s) = rawRows c
          \<longleftrightarrow> (\<forall>row \<in> set (rawRows c). formatText (q row) = q row \<and> formatText (a row) = a row))
     \<and> (rawRows (loadStudySet entry rnd c' s) = rawRows c
          \<longleftrightarrow> (\<forall>row \<in> set (rawRows c). \<not> has_marker (q row) \<and> \<not> has_marker (a row)))
     \<and> (\<forall>t. has_marker t \<longrightarrow> formatText (formatText t) \<noteq> formatText t)
     \<and> formatText ''A.'' = [CHR 0x0A, CHR ''A'', CHR ''.'', CHR '' '']
     \<and> formatText (formatText ''A.'') = [CHR 0x0A, CHR 0x0A, CHR ''A'', CHR ''.'', CHR '' '']"
proof -
  have e: "questions entry = map (\<lambda>row. \<lparr>question = q row, answer = a row\<rparr>) (rawRows c)"
    using assms by (auto simp: saveStudySet_def split: if_split_asm)
  have rr: "rawRows (loadStudySet entry rnd c' s) =
           map (\<lambda>row. \<lparr>q = formatText (q row), a = formatText (a row)\<rparr>) (rawRows c)"
    by (simp add: rawRows_loadStudySet e comp_def)
  have "map (\<lambda>row. \<lparr>q = formatText (q row), a = formatText (a row)\<rparr>) (rawRows c) = rawRows c
        \<longleftrightarrow> (\<forall>row \<in> set (rawRows c). \<lparr>q = formatText (q row), a = formatText (a row)\<rparr> = row)"
    using map_eq_conv [of _ "rawRows c" id] by simp
  then have fx: "rawRows (loadStudySet entry rnd c' s) = rawRows c
          \<longleftrightarrow> (\<forall>row \<in> set (rawRows c). formatText (q row) = q row \<and> formatText (a row) = a row)"
    by (simp only: rr reformat_row_fixed)
  have mk: "rawRows (loadStudySet entry rnd c' s) = rawRows c
          \<longleftrightarrow> (\<forall>row \<in> set (rawRows c). \<not> has_marker (q row) \<and> \<not> has_marker (a row))"
    by (simp only: fx formatText_fixed_point)
  have ni: "\<forall>t. has_marker t \<longrightarrow> formatText (formatText t) \<noteq> formatText t"
    using formatText_not_idempotent by blast
  have ex: "formatText ''A.'' = [CHR 0x0A, CHR ''A'', CHR ''.'', CHR '' '']"
    "formatText (formatText ''A.'') = [CHR 0x0A, CHR 0x0A, CHR ''A'', CHR ''.'', CHR '' '']"
    by (simp_all add: is_option_letter_def is_space_def)
  show ?thesis using rr fx mk ni ex by blast
qed

theorem save_load_reformats_witness:
  "saveStudySet exampleDeck
     = Some \<lparr>title = ''set'',
             questions = [\<lparr>question = ''Pick '' @ [CHR 0x0A] @ ''A. x'', answer = ''x''\<rparr>]\<rparr>
   \<and> rawRows exampleDeck = [\<lparr>q = ''Pick '' @ [CHR 0x0A] @ ''A. x'', a = ''x''\<rparr>]
   \<and> has_marker (q (rawRows exampleDeck ! 0))
   \<and> rawRows (loadStudySet (the (saveStudySet exampleDeck)) halves exampleDeck exampleDeck)
       = [\<lparr>q = ''Pick '' @ [CHR 0x0A, CHR 0x0A] @ ''A. x'', a = ''x''\<rparr>]
   \<and> rawRows (loadStudySet (the (saveStudySet exampleDeck)) halves exampleDeck exampleDeck)
       \<noteq> rawRows exampleDeck"
proof -
  have sv: "saveStudySet exampleDeck
     = Some \<lparr>title = ''set'',
             questions = [\<lparr>question = ''Pick '' @ [CHR 0x0A] @ ''A. x'', answer = ''x''\<rparr>]\<rparr>"
    by (simp add: saveStudySet_def exampleDeck_def initialState_def trim_def is_space_def
        is_option_letter_def)
  show ?thesis
    using sv save_load_reformats [OF sv, of halves exampleDeck exampleDeck]
    by (simp add: exampleDeck_def initialState_def is_option_letter_def is_space_def)
qed

end
